theory Spec2Isabelle
  imports Complex_Main
begin

section \<open>JavaScript strings\<close>

text \<open>
  The frontend is TypeScript. A JavaScript string is a sequence of UTF-16 code units,
  and \<^verbatim>\<open>trim\<close>, \<^verbatim>\<open>split\<close> and a regular expression without the
  \<^verbatim>\<open>u\<close> flag all work on code units. A string is therefore modelled as a list
  of code units, each a natural number; \<open>lit\<close> turns an ASCII literal into one.
\<close>

type_synonym jsstring = "nat list"

definition lit :: "string \<Rightarrow> jsstring" where
  "lit s = map of_char s"

text \<open>
  \<^verbatim>\<open>String.prototype.trim\<close> removes the code units of the ECMAScript productions
  WhiteSpace and LineTerminator from both ends: TAB, LF, VT, FF, CR, SPACE, NBSP,
  U+1680, U+2000 to U+200A, U+2028, U+2029, U+202F, U+205F, U+3000 and U+FEFF.
\<close>

definition is_js_space :: "nat \<Rightarrow> bool" where
  "is_js_space c =
     (c = 9 \<or> c = 10 \<or> c = 11 \<or> c = 12 \<or> c = 13 \<or> c = 32 \<or> c = 160 \<or> c = 5760
      \<or> (8192 \<le> c \<and> c \<le> 8202) \<or> c = 8232 \<or> c = 8233 \<or> c = 8239 \<or> c = 8287
      \<or> c = 12288 \<or> c = 65279)"

definition trim :: "jsstring \<Rightarrow> jsstring" where
  "trim s = rev (dropWhile is_js_space (rev (dropWhile is_js_space s)))"

text \<open>The class \<^verbatim>\<open>\d\<close> of a regular expression without the \<^verbatim>\<open>u\<close> flag: 0 to 9.\<close>

definition is_digit :: "nat \<Rightarrow> bool" where
  "is_digit c = (48 \<le> c \<and> c \<le> 57)"

text \<open>
  A number inside a template literal (\<^verbatim>\<open>`[${refNumber}]`\<close>) is written in decimal;
  the numbers here are array lengths plus one, far below the 1e21 where JavaScript
  switches to exponent notation.
\<close>

fun number_to_string :: "nat \<Rightarrow> jsstring" where
  "number_to_string n =
     (if n < 10 then [48 + n] else number_to_string (n div 10) @ [48 + n mod 10])"

declare number_to_string.simps [simp del]

text \<open>
  \<^verbatim>\<open>parseInt(s, 10)\<close> on a non-empty run of decimal digits. JavaScript numbers are
  doubles: the value is exact up to 2^53 and rounded beyond, which no property below
  depends on.
\<close>

definition parseInt10 :: "jsstring \<Rightarrow> nat" where
  "parseInt10 ds = foldl (\<lambda>a d. 10 * a + (d - 48)) 0 ds"

text \<open>\<^verbatim>\<open>s.split(sep)\<close> for a separator of one code unit: never an empty array.\<close>

fun split_on :: "nat \<Rightarrow> jsstring \<Rightarrow> jsstring list" where
  "split_on sep [] = [[]]"
| "split_on sep (c # cs) =
     (if c = sep then [] # split_on sep cs
      else (case split_on sep cs of
              [] \<Rightarrow> [[c]]
            | p # ps \<Rightarrow> (c # p) # ps))"

text \<open>
  \<^verbatim>\<open>s.match(/\d+/)\<close>: the first maximal run of digits (element 0 of the match
  array), or \<open>None\<close> for JavaScript's \<^verbatim>\<open>null\<close> when there is no digit.
\<close>

definition match_digits :: "jsstring \<Rightarrow> jsstring option" where
  "match_digits s =
     (let r = dropWhile (\<lambda>c. \<not> is_digit c) s
      in if r = [] then None else Some (takeWhile is_digit r))"

section \<open>Citation tags: parseCitTags (frontend/app/page.tsx)\<close>

text \<open>
  \<^verbatim>\<open>
  const parseCitTags = (text: string) => {
    const citRegex = /<cit>([^<]+)<\/cit>/g
    const citations: Citation[] = []
    const citationMap = new Map<string, number>()
    const processedText = text.replace(citRegex, (_, displayText) => {
      const cleanDisplay = displayText.trim()
      if (citationMap.has(cleanDisplay)) {
        return `[${citationMap.get(cleanDisplay)}]`
      } else {
        const refNumber = citations.length + 1
        citationMap.set(cleanDisplay, refNumber)
        const parts = cleanDisplay.split("-")
        const sourceFile = parts[0].trim()
        const pageMatch = parts[1] ? parts[1].trim().match(/\d+/) : null
        const source_pages = pageMatch ? parseInt(pageMatch[0], 10) : 0
        citations.push({ id: cleanDisplay, display_text: cleanDisplay,
          source_file: sourceFile, source_pages, reference_number: refNumber })
        return `[${refNumber}]`
      }
    })
    return { processedText, citations }
  }
  \<close>
\<close>

record citation =
  id_cit :: jsstring
  display_text :: jsstring
  source_file :: jsstring
  source_pages :: nat
  reference_number :: "nat option"

text \<open>
  The two local variables the replacer callback mutates: the array \<open>citations\<close> and
  the \<^verbatim>\<open>Map\<close> \<open>citationMap\<close>.
\<close>

record cit_state =
  citations :: "citation list"
  citationMap :: "jsstring \<rightharpoonup> nat"

definition cit_open :: jsstring where
  "cit_open = lit ''<cit>''"

definition cit_close :: jsstring where
  "cit_close = lit ''</cit>''"

definition lt_sign :: nat where
  "lt_sign = 60"

fun strip_prefix :: "'a list \<Rightarrow> 'a list \<Rightarrow> 'a list option" where
  "strip_prefix [] ys = Some ys"
| "strip_prefix (x # xs) [] = None"
| "strip_prefix (x # xs) (y # ys) = (if x = y then strip_prefix xs ys else None)"

text \<open>
  One attempt of the regular expression \<^verbatim>\<open><cit>([^<]+)<\/cit>\<close> at the start of
  \<open>s\<close>: the literal \<^verbatim>\<open><cit>\<close>, then the group \<^verbatim>\<open>[^<]+\<close>, then the literal
  \<^verbatim>\<open></cit>\<close>. The group is greedy and cannot hold \<^verbatim>\<open><\<close>, while what follows
  it starts with \<^verbatim>\<open><\<close>: the only length at which the rest can match is the whole
  run of code units up to the next \<^verbatim>\<open><\<close>, and that run must not be empty. The
  result is the captured group and the text after the match.
\<close>

definition match_cit :: "jsstring \<Rightarrow> (jsstring \<times> jsstring) option" where
  "match_cit s =
     (case strip_prefix cit_open s of
        None \<Rightarrow> None
      | Some r \<Rightarrow>
          (let displayText = takeWhile (\<lambda>c. c \<noteq> lt_sign) r;
               after = dropWhile (\<lambda>c. c \<noteq> lt_sign) r
           in if displayText = [] then None
              else (case strip_prefix cit_close after of
                      None \<Rightarrow> None
                    | Some rest \<Rightarrow> Some (displayText, rest))))"

definition bracket :: "nat \<Rightarrow> jsstring" where
  "bracket n = lit ''['' @ number_to_string n @ lit '']''"

text \<open>
  The replacer callback: the returned marker and the two variables after the call.
  \<^verbatim>\<open>parts[0]\<close> always exists, \<^verbatim>\<open>split\<close> never returning an empty array
  (\<open>split_on_not_Nil\<close> below); \<^verbatim>\<open>parts[1]\<close> is falsy when there is no second
  part or when it is the empty string.
\<close>

definition replacer :: "cit_state \<Rightarrow> jsstring \<Rightarrow> jsstring \<times> cit_state" where
  "replacer st displayText =
     (let cleanDisplay = trim displayText
      in case citationMap st cleanDisplay of
           Some n \<Rightarrow> (bracket n, st)
         | None \<Rightarrow>
             (let refNumber = length (citations st) + 1;
                  parts = split_on 45 cleanDisplay;
                  sourceFile = trim (hd parts);
                  pageMatch = (case tl parts of
                                 [] \<Rightarrow> None
                               | p1 # _ \<Rightarrow> if p1 = [] then None else match_digits (trim p1));
                  pages = (case pageMatch of None \<Rightarrow> 0 | Some ds \<Rightarrow> parseInt10 ds)
              in (bracket refNumber,
                  \<lparr>citations = citations st @
                     [\<lparr>id_cit = cleanDisplay, display_text = cleanDisplay,
                       source_file = sourceFile, source_pages = pages,
                       reference_number = Some refNumber\<rparr>],
                   citationMap = (citationMap st)(cleanDisplay \<mapsto> refNumber)\<rparr>)))"

lemma strip_prefix_length:
  "strip_prefix xs ys = Some r \<Longrightarrow> length ys = length xs + length r"
  by (induction xs ys rule: strip_prefix.induct) (auto split: if_splits)

lemma match_cit_shorter:
  assumes "match_cit s = Some (d, rest)"
  shows "length rest < length s"
proof -
  from assms obtain r where r: "strip_prefix cit_open s = Some r"
    by (auto simp: match_cit_def split: option.splits)
  with assms have c: "strip_prefix cit_close (dropWhile (\<lambda>c. c \<noteq> lt_sign) r) = Some rest"
    by (auto simp: match_cit_def Let_def split: option.splits if_splits)
  have "length (dropWhile (\<lambda>c. c \<noteq> lt_sign) r) \<le> length r"
    by (rule length_dropWhile_le)
  moreover from c have "length rest \<le> length (dropWhile (\<lambda>c. c \<noteq> lt_sign) r)"
    by (drule_tac strip_prefix_length) simp
  moreover from r have "length s = length cit_open + length r"
    by (rule strip_prefix_length)
  moreover have "0 < length cit_open"
    by (simp add: cit_open_def lit_def)
  ultimately show ?thesis by linarith
qed

text \<open>
  \<^verbatim>\<open>text.replace(citRegex, callback)\<close> with a global regular expression: the
  matches are found from left to right, each search starting where the previous match
  ended; at a position where the expression does not match, the code unit is copied and
  the search moves one code unit on. The callback runs once per match, in order, and
  what it returns is inserted as it is (a function's result is not scanned for
  \<^verbatim>\<open>$\<close> patterns, nor searched again).
\<close>

function replace_cit :: "cit_state \<Rightarrow> jsstring \<Rightarrow> jsstring \<times> cit_state" where
  "replace_cit st [] = ([], st)"
| "replace_cit st (c # cs) =
     (case match_cit (c # cs) of
        None \<Rightarrow> (let (out, st') = replace_cit st cs in (c # out, st'))
      | Some (displayText, rest) \<Rightarrow>
          (let (marker, st') = replacer st displayText;
               (out, st'') = replace_cit st' rest
           in (marker @ out, st'')))"
  by pat_completeness auto
termination
  by (relation "measure (\<lambda>(st, s). length s)") (auto dest: match_cit_shorter)

definition parseCitTags :: "jsstring \<Rightarrow> jsstring \<times> citation list" where
  "parseCitTags text =
     (let (processedText, st) = replace_cit \<lparr>citations = [], citationMap = Map.empty\<rparr> text
      in (processedText, citations st))"

subsection \<open>What the claim about the numbering says\<close>

text \<open>
  The scan of \<^verbatim>\<open>replace\<close> cuts the text into the matches of the regular
  expression (the citation tags, each with its captured display text) and the code
  units between them.
\<close>

datatype piece = Plain nat | Tag jsstring

function pieces :: "jsstring \<Rightarrow> piece list" where
  "pieces [] = []"
| "pieces (c # cs) =
     (case match_cit (c # cs) of
        None \<Rightarrow> Plain c # pieces cs
      | Some (displayText, rest) \<Rightarrow> Tag displayText # pieces rest)"
  by pat_completeness auto
termination
  by (relation "measure length") (auto dest: match_cit_shorter)

text \<open>What a piece was in the text: a tag with its display text, or the code unit.\<close>

fun raw :: "piece \<Rightarrow> jsstring" where
  "raw (Plain c) = [c]"
| "raw (Tag d) = cit_open @ d @ cit_close"

text \<open>The trimmed display texts of the tags, in the order of the tags.\<close>

fun tag_texts :: "piece list \<Rightarrow> jsstring list" where
  "tag_texts [] = []"
| "tag_texts (Plain c # ps) = tag_texts ps"
| "tag_texts (Tag d # ps) = trim d # tag_texts ps"

text \<open>The distinct elements of a list, in the order of their first appearance.\<close>

fun first_seen :: "'a list \<Rightarrow> 'a list" where
  "first_seen [] = []"
| "first_seen (x # xs) = x # removeAll x (first_seen xs)"

text \<open>The 1-based position of the first \<open>x\<close> in \<open>xs\<close>.\<close>

definition position :: "'a \<Rightarrow> 'a list \<Rightarrow> nat" where
  "position x xs = Suc (length (takeWhile (\<lambda>y. y \<noteq> x) xs))"

text \<open>
  A tag is written as the bracketed decimal position of its trimmed display text in
  \<open>names\<close>; any other code unit is copied.
\<close>

fun render :: "jsstring list \<Rightarrow> piece \<Rightarrow> jsstring" where
  "render names (Plain c) = [c]"
| "render names (Tag d) = bracket (position (trim d) names)"

subsection \<open>The invariant of the replacer callback\<close>

definition add_name :: "'a list \<Rightarrow> 'a \<Rightarrow> 'a list" where
  "add_name ns d = (if d \<in> set ns then ns else ns @ [d])"

definition names :: "cit_state \<Rightarrow> jsstring list" where
  "names st = map display_text (citations st)"

definition wf_state :: "cit_state \<Rightarrow> bool" where
  "wf_state st \<longleftrightarrow>
     distinct (names st)
     \<and> citationMap st = (\<lambda>d. if d \<in> set (names st) then Some (position d (names st)) else None)
     \<and> map reference_number (citations st) = map Some [1..<Suc (length (citations st))]"

section \<open>Stream event listeners (app/page.tsx and frontend/app/page.tsx)\<close>

text \<open>
  Inside \<^verbatim>\<open>handleSubmit\<close>, both versions of the page open an
  \<^verbatim>\<open>EventSource\<close> and register one listener per event. The data of an event is a
  string; the listeners read it through
  \<^verbatim>\<open>
  const safeParseJSON = (data: string) => {
    try {
      return data ? JSON.parse(data) : null
    } catch (error) {
      console.error("Failed to parse JSON:", error)
      return null
    }
  }
  \<close>
\<close>

subsection \<open>JSON values\<close>

text \<open>
  What \<^verbatim>\<open>JSON.parse\<close> returns. A number is a double: a finite value (the two zeros
  are not told apart: both are falsy) or an infinity, which an overflowing literal gives;
  \<^verbatim>\<open>JSON.parse\<close> never returns NaN. An object is the list of its own properties, each
  key once.
\<close>

datatype js_number = Finite rat | Infinite bool

datatype json =
    JNull
  | JBool bool
  | JNum js_number
  | JStr jsstring
  | JArr "json list"
  | JObj "(jsstring \<times> json) list"

text \<open>The exception \<^verbatim>\<open>JSON.parse\<close> throws on a text that is not JSON.\<close>

datatype js_error = SyntaxError

text \<open>
  \<^verbatim>\<open>JSON.parse\<close> is a builtin of the platform and a parameter here: \<open>Inl\<close> when it
  throws. An empty string is falsy and is not parsed. The \<^verbatim>\<open>catch\<close> clause turns
  the exception into \<^verbatim>\<open>null\<close>, so \<open>safeParseJSON\<close> always returns.
\<close>

definition safeParseJSON :: "(jsstring \<Rightarrow> js_error + json) \<Rightarrow> jsstring \<Rightarrow> js_error + json" where
  "safeParseJSON JSON_parse data =
     (if data \<noteq> []
      then (case JSON_parse data of
              Inl error \<Rightarrow> Inr JNull
            | Inr v \<Rightarrow> Inr v)
      else Inr JNull)"

text \<open>
  The optional chain \<^verbatim>\<open>data?.field\<close> for the fields read here (\<^verbatim>\<open>message\<close>,
  \<^verbatim>\<open>chunk\<close>, \<^verbatim>\<open>payload\<close>, \<^verbatim>\<open>citations\<close>, \<^verbatim>\<open>thought_process\<close>):
  \<open>None\<close> is \<^verbatim>\<open>undefined\<close>. Only an object can have such a property; on
  \<^verbatim>\<open>null\<close> the chain stops, and a string, a number, a boolean or an array has none
  of these names.
\<close>

fun get_prop :: "json \<Rightarrow> jsstring \<Rightarrow> json option" where
  "get_prop (JObj kvs) k = map_of kvs k"
| "get_prop v k = None"

text \<open>
  The truth value of a condition: \<^verbatim>\<open>undefined\<close>, \<^verbatim>\<open>null\<close>, \<^verbatim>\<open>false\<close>,
  zero and the empty string are falsy, everything else is truthy.
\<close>

fun truthy :: "json option \<Rightarrow> bool" where
  "truthy None = False"
| "truthy (Some JNull) = False"
| "truthy (Some (JBool b)) = b"
| "truthy (Some (JNum (Finite q))) = (q \<noteq> 0)"
| "truthy (Some (JNum (Infinite s))) = True"
| "truthy (Some (JStr s)) = (s \<noteq> [])"
| "truthy (Some (JArr xs)) = True"
| "truthy (Some (JObj kvs)) = True"

subsection \<open>Messages\<close>

text \<open>
  \<^verbatim>\<open>
  interface Message {
    type: "status" | "assistant" | "user"
    content: string
    icon?: "search" | "analyze"
    color?: "blue" | "purple"
    citations?: Citation[]
    thought_process?: Array<{ step: string; details: Record<string, any> }>
    completed?: boolean
  }
  \<close>
  An optional field that is not set is \<open>None\<close>. In app/page.tsx the citations come from
  the payload of an event as they are; in frontend/app/page.tsx they come from
  \<open>parseCitTags\<close>: the type of the field is a parameter.
\<close>

datatype msg_type = Status | Assistant | User

datatype msg_icon = IconSearch | IconAnalyze

datatype msg_color = Blue | Purple

record 'c message =
  type_msg :: msg_type
  content :: jsstring
  icon :: "msg_icon option"
  color :: "msg_color option"
  citations_msg :: "'c option"
  thought_process :: "json option"
  completed :: "bool option"

definition STATUS_SEARCHING :: jsstring where
  "STATUS_SEARCHING = lit ''Searching for documents...''"

definition STATUS_ANALYZING :: jsstring where
  "STATUS_ANALYZING = lit ''Reviewing the documents...''"

subsection \<open>The listeners of app/page.tsx\<close>

text \<open>
  What the listeners of one \<^verbatim>\<open>handleSubmit\<close> call read and write: the React state
  \<^verbatim>\<open>messages\<close> and the local variables \<^verbatim>\<open>responseText\<close>,
  \<^verbatim>\<open>currentCitations\<close> and \<^verbatim>\<open>currentThoughtProcess\<close>. A listener takes the
  state and the data of the event and returns the state after it, or the exception that
  escapes it.
\<close>

record ui_state =
  messages :: "json message list"
  responseText :: jsstring
  currentCitations :: "json option"
  currentThoughtProcess :: "json option"

text \<open>
  \<^verbatim>\<open>
  eventSource.addEventListener("retrieve", (e) => {
    const data = safeParseJSON(e.data)
    if (data?.message) {
      setMessages((prev) => [...prev,
        { type: "status", content: STATUS_MESSAGES.SEARCHING, icon: "search", color: "blue" }])
    }
  })
  \<close>
\<close>

definition retrieve_listener ::
  "(jsstring \<Rightarrow> js_error + json) \<Rightarrow> ui_state \<Rightarrow> jsstring \<Rightarrow> js_error + ui_state" where
  "retrieve_listener JSON_parse st e_data =
     (case safeParseJSON JSON_parse e_data of
        Inl err \<Rightarrow> Inl err
      | Inr data \<Rightarrow>
          if truthy (get_prop data (lit ''message''))
          then Inr (st\<lparr>messages := messages st @
                 [\<lparr>type_msg = Status, content = STATUS_SEARCHING, icon = Some IconSearch,
                   color = Some Blue, citations_msg = None, thought_process = None,
                   completed = None\<rparr>]\<rparr>)
          else Inr st)"

text \<open>
  \<^verbatim>\<open>
  eventSource.addEventListener("review", (e) => {
    const data = safeParseJSON(e.data)
    if (data?.message) {
      setMessages((prev) => {
        const newMessages = [...prev]
        const lastMessage = newMessages[newMessages.length - 1]
        if (lastMessage?.type === "status") { lastMessage.completed = true }
        return [...newMessages,
          { type: "status", content: STATUS_MESSAGES.ANALYZING, icon: "analyze",
            color: "purple", completed: false }]
      })
    }
  })
  \<close>
\<close>

definition complete_last_status :: "('c message) list \<Rightarrow> ('c message) list" where
  "complete_last_status ms =
     (if ms \<noteq> [] \<and> type_msg (last ms) = Status
      then butlast ms @ [(last ms)\<lparr>completed := Some True\<rparr>]
      else ms)"

definition review_listener ::
  "(jsstring \<Rightarrow> js_error + json) \<Rightarrow> ui_state \<Rightarrow> jsstring \<Rightarrow> js_error + ui_state" where
  "review_listener JSON_parse st e_data =
     (case safeParseJSON JSON_parse e_data of
        Inl err \<Rightarrow> Inl err
      | Inr data \<Rightarrow>
          if truthy (get_prop data (lit ''message''))
          then Inr (st\<lparr>messages := complete_last_status (messages st) @
                 [\<lparr>type_msg = Status, content = STATUS_ANALYZING, icon = Some IconAnalyze,
                   color = Some Purple, citations_msg = None, thought_process = None,
                   completed = Some False\<rparr>]\<rparr>)
          else Inr st)"

text \<open>
  \<^verbatim>\<open>
  eventSource.addEventListener("response_chunk", (e) => {
    const data = safeParseJSON(e.data)
    if (data?.chunk) {
      responseText += data.chunk
      setMessages((prev) => {
        const newMessages = [...prev]
        const lastStatus = newMessages.findLast(m => m.type === "status")
        if (lastStatus) { lastStatus.completed = true }
        const lastMsg = newMessages[newMessages.length - 1]
        if (lastMsg && lastMsg.type === "assistant") {
          lastMsg.content = responseText
          lastMsg.citations = currentCitations
          lastMsg.thought_process = currentThoughtProcess
        } else {
          newMessages.push({ type: "assistant", content: responseText,
            citations: currentCitations, thought_process: currentThoughtProcess })
        }
        return newMessages
      })
    }
  })
  \<close>
  \<^verbatim>\<open>findLast\<close> finds the status message nearest to the end. The chunk is appended
  with \<^verbatim>\<open>+=\<close>: a string as it is, any other value after the conversion to a
  string (ToString, a builtin), which is the parameter \<open>ToString\<close>.
\<close>

definition string_of :: "(json \<Rightarrow> jsstring) \<Rightarrow> json \<Rightarrow> jsstring" where
  "string_of ToString v = (case v of JStr s \<Rightarrow> s | _ \<Rightarrow> ToString v)"

fun complete_first_status :: "('c message) list \<Rightarrow> ('c message) list" where
  "complete_first_status [] = []"
| "complete_first_status (m # ms) =
     (if type_msg m = Status then m\<lparr>completed := Some True\<rparr> # ms
      else m # complete_first_status ms)"

definition complete_findLast_status :: "('c message) list \<Rightarrow> ('c message) list" where
  "complete_findLast_status ms = rev (complete_first_status (rev ms))"

definition response_chunk_listener ::
  "(jsstring \<Rightarrow> js_error + json) \<Rightarrow> (json \<Rightarrow> jsstring) \<Rightarrow> ui_state \<Rightarrow> jsstring
     \<Rightarrow> js_error + ui_state" where
  "response_chunk_listener JSON_parse ToString st e_data =
     (case safeParseJSON JSON_parse e_data of
        Inl err \<Rightarrow> Inl err
      | Inr data \<Rightarrow>
          (case get_prop data (lit ''chunk'') of
             None \<Rightarrow> Inr st
           | Some chunk \<Rightarrow>
               if truthy (Some chunk)
               then (let responseText' = responseText st @ string_of ToString chunk;
                         newMessages = complete_findLast_status (messages st)
                     in Inr (st\<lparr>responseText := responseText',
                                messages :=
                                  (if newMessages \<noteq> [] \<and> type_msg (last newMessages) = Assistant
                                   then butlast newMessages @
                                     [(last newMessages)\<lparr>content := responseText',
                                        citations_msg := currentCitations st,
                                        thought_process := currentThoughtProcess st\<rparr>]
                                   else newMessages @
                                     [\<lparr>type_msg = Assistant, content = responseText',
                                       icon = None, color = None,
                                       citations_msg = currentCitations st,
                                       thought_process = currentThoughtProcess st,
                                       completed = None\<rparr>])\<rparr>))
               else Inr st))"

text \<open>
  \<^verbatim>\<open>
  eventSource.addEventListener("final_payload", (e) => {
    const data = safeParseJSON(e.data)
    if (data?.payload) {
      const { citations, thought_process } = data.payload as { ... }
      currentCitations = citations
      currentThoughtProcess = thought_process
      setMessages((prev) => {
        const newMessages = [...prev]
        const lastMessage = newMessages[newMessages.length - 1]
        if (lastMessage?.type === "assistant") {
          lastMessage.citations = citations
          lastMessage.thought_process = thought_process
        }
        return newMessages
      })
    }
  })
  \<close>
\<close>

definition final_payload_listener ::
  "(jsstring \<Rightarrow> js_error + json) \<Rightarrow> ui_state \<Rightarrow> jsstring \<Rightarrow> js_error + ui_state" where
  "final_payload_listener JSON_parse st e_data =
     (case safeParseJSON JSON_parse e_data of
        Inl err \<Rightarrow> Inl err
      | Inr data \<Rightarrow>
          (case get_prop data (lit ''payload'') of
             None \<Rightarrow> Inr st
           | Some payload \<Rightarrow>
               if truthy (Some payload)
               then (let citations' = get_prop payload (lit ''citations'');
                         thought_process' = get_prop payload (lit ''thought_process'')
                     in Inr (st\<lparr>currentCitations := citations',
                                currentThoughtProcess := thought_process',
                                messages :=
                                  (if messages st \<noteq> [] \<and> type_msg (last (messages st)) = Assistant
                                   then butlast (messages st) @
                                     [(last (messages st))\<lparr>citations_msg := citations',
                                        thought_process := thought_process'\<rparr>]
                                   else messages st)\<rparr>))
               else Inr st))"

subsection \<open>The listeners of frontend/app/page.tsx\<close>

text \<open>
  The later version keeps the raw response text in the React state
  \<^verbatim>\<open>rawResponse\<close> and takes the citations of a message from \<open>parseCitTags\<close>.
  Its \<^verbatim>\<open>retrieve\<close> and \<^verbatim>\<open>review\<close> listeners first run
  \<^verbatim>\<open>
  newMessages.forEach(msg => {
    if (msg.type === "status" && !msg.completed) { msg.completed = true }
  })
  \<close>
  and then append the status message, with \<^verbatim>\<open>completed: false\<close>.
\<close>

record ui_state2 =
  messages2 :: "(citation list) message list"
  rawResponse :: jsstring
  currentThoughtProcess2 :: "json option"

definition complete_all_status :: "('c message) list \<Rightarrow> ('c message) list" where
  "complete_all_status ms =
     map (\<lambda>msg. if type_msg msg = Status \<and> completed msg \<noteq> Some True
                then msg\<lparr>completed := Some True\<rparr> else msg) ms"

definition retrieve_listener2 ::
  "(jsstring \<Rightarrow> js_error + json) \<Rightarrow> ui_state2 \<Rightarrow> jsstring \<Rightarrow> js_error + ui_state2" where
  "retrieve_listener2 JSON_parse st e_data =
     (case safeParseJSON JSON_parse e_data of
        Inl err \<Rightarrow> Inl err
      | Inr data \<Rightarrow>
          if truthy (get_prop data (lit ''message''))
          then Inr (st\<lparr>messages2 := complete_all_status (messages2 st) @
                 [\<lparr>type_msg = Status, content = STATUS_SEARCHING, icon = Some IconSearch,
                   color = Some Blue, citations_msg = None, thought_process = None,
                   completed = Some False\<rparr>]\<rparr>)
          else Inr st)"

definition review_listener2 ::
  "(jsstring \<Rightarrow> js_error + json) \<Rightarrow> ui_state2 \<Rightarrow> jsstring \<Rightarrow> js_error + ui_state2" where
  "review_listener2 JSON_parse st e_data =
     (case safeParseJSON JSON_parse e_data of
        Inl err \<Rightarrow> Inl err
      | Inr data \<Rightarrow>
          if truthy (get_prop data (lit ''message''))
          then Inr (st\<lparr>messages2 := complete_all_status (messages2 st) @
                 [\<lparr>type_msg = Status, content = STATUS_ANALYZING, icon = Some IconAnalyze,
                   color = Some Purple, citations_msg = None, thought_process = None,
                   completed = Some False\<rparr>]\<rparr>)
          else Inr st)"

text \<open>
  \<^verbatim>\<open>
  eventSource.addEventListener("response_chunk", (e) => {
    const data = safeParseJSON(e.data)
    if (data?.chunk) {
      setRawResponse((prevRaw) => {
        const newRaw = prevRaw + data.chunk
        const { processedText, citations } = parseCitTags(newRaw)
        setMessages((prev) => {
          const newMessages = [...prev]
          newMessages.forEach(msg => {
            if (msg.type === "status" && !msg.completed) { msg.completed = true }
          })
          const lastMsg = prev.slice(-1)[0]
          if (lastMsg && lastMsg.type === "assistant") {
            lastMsg.content = processedText
            lastMsg.citations = citations
            return [...prev.slice(0, -1), lastMsg]
          } else {
            return [...newMessages, { type: "assistant", content: processedText,
              citations, thought_process: currentThoughtProcess }]
          }
        })
        return newRaw
      })
    }
  })
  \<close>
  \<^verbatim>\<open>newMessages\<close> is a copy of the array and not of its messages, so the messages
  \<^verbatim>\<open>forEach\<close> completes are also those of \<^verbatim>\<open>prev\<close>.
\<close>

definition response_chunk_listener2 ::
  "(jsstring \<Rightarrow> js_error + json) \<Rightarrow> (json \<Rightarrow> jsstring) \<Rightarrow> ui_state2 \<Rightarrow> jsstring
     \<Rightarrow> js_error + ui_state2" where
  "response_chunk_listener2 JSON_parse ToString st e_data =
     (case safeParseJSON JSON_parse e_data of
        Inl err \<Rightarrow> Inl err
      | Inr data \<Rightarrow>
          (case get_prop data (lit ''chunk'') of
             None \<Rightarrow> Inr st
           | Some chunk \<Rightarrow>
               if truthy (Some chunk)
               then (let newRaw = rawResponse st @ string_of ToString chunk;
                         (processedText, citations') = parseCitTags newRaw;
                         newMessages = complete_all_status (messages2 st)
                     in Inr (st\<lparr>rawResponse := newRaw,
                                messages2 :=
                                  (if messages2 st \<noteq> [] \<and> type_msg (last (messages2 st)) = Assistant
                                   then butlast newMessages @
                                     [(last newMessages)\<lparr>content := processedText,
                                        citations_msg := Some citations'\<rparr>]
                                   else newMessages @
                                     [\<lparr>type_msg = Assistant, content = processedText,
                                       icon = None, color = None,
                                       citations_msg = Some citations',
                                       thought_process = currentThoughtProcess2 st,
                                       completed = None\<rparr>])\<rparr>))
               else Inr st))"

text \<open>
  \<^verbatim>\<open>
  eventSource.addEventListener("final_payload", (e) => {
    const data = safeParseJSON(e.data)
    if (data?.payload) {
      const { thought_process } = data.payload as { ... }
      currentThoughtProcess = thought_process
      setMessages((prev) => {
        const lastMsg = prev.slice(-1)[0]
        if (lastMsg && lastMsg.type === "assistant") {
          lastMsg.thought_process = thought_process
          return [...prev.slice(0, -1), lastMsg]
        }
        return prev
      })
    }
  })
  \<close>
\<close>

definition final_payload_listener2 ::
  "(jsstring \<Rightarrow> js_error + json) \<Rightarrow> ui_state2 \<Rightarrow> jsstring \<Rightarrow> js_error + ui_state2" where
  "final_payload_listener2 JSON_parse st e_data =
     (case safeParseJSON JSON_parse e_data of
        Inl err \<Rightarrow> Inl err
      | Inr data \<Rightarrow>
          (case get_prop data (lit ''payload'') of
             None \<Rightarrow> Inr st
           | Some payload \<Rightarrow>
               if truthy (Some payload)
               then (let thought_process' = get_prop payload (lit ''thought_process'')
                     in Inr (st\<lparr>currentThoughtProcess2 := thought_process',
                                messages2 :=
                                  (if messages2 st \<noteq> [] \<and> type_msg (last (messages2 st)) = Assistant
                                   then butlast (messages2 st) @
                                     [(last (messages2 st))\<lparr>thought_process := thought_process'\<rparr>]
                                   else messages2 st)\<rparr>))
               else Inr st))"

subsection \<open>Events the listeners must ignore\<close>

text \<open>
  The data of an event is not valid JSON (\<^verbatim>\<open>JSON.parse\<close> throws), or it is and the
  value parsed has no property \<open>field\<close>.
\<close>

definition not_json_or_lacks ::
  "(jsstring \<Rightarrow> js_error + json) \<Rightarrow> jsstring \<Rightarrow> jsstring \<Rightarrow> bool" where
  "not_json_or_lacks JSON_parse e_data field =
     (case JSON_parse e_data of
        Inl err \<Rightarrow> True
      | Inr data \<Rightarrow> get_prop data field = None)"

text \<open>
  A stand-in for \<^verbatim>\<open>JSON.parse\<close> on the texts of the examples: two valid texts, an
  empty object and a number, and a syntax error for anything else.
\<close>

text \<open>
  The state of either page once the user has asked a question and the first
  \<^verbatim>\<open>retrieve\<close> event has been shown.
\<close>

definition searching_state :: ui_state where
  "searching_state =
     \<lparr>messages =
        [\<lparr>type_msg = User, content = lit ''Show me financials for 2024'', icon = None,
          color = None, citations_msg = None, thought_process = None, completed = None\<rparr>,
         \<lparr>type_msg = Status, content = STATUS_SEARCHING, icon = Some IconSearch,
          color = Some Blue, citations_msg = None, thought_process = None, completed = None\<rparr>],
      responseText = [], currentCitations = Some (JArr []),
      currentThoughtProcess = Some (JArr [])\<rparr>"

definition searching_state2 :: ui_state2 where
  "searching_state2 =
     \<lparr>messages2 =
        [\<lparr>type_msg = User, content = lit ''Show me financials for 2024'', icon = None,
          color = None, citations_msg = None, thought_process = None, completed = None\<rparr>,
         \<lparr>type_msg = Status, content = STATUS_SEARCHING, icon = Some IconSearch,
          color = Some Blue, citations_msg = None, thought_process = None,
          completed = Some False\<rparr>],
      rawResponse = [], currentThoughtProcess2 = Some (JArr [])\<rparr>"

definition toy_parse :: "jsstring \<Rightarrow> js_error + json" where
  "toy_parse d =
     (if d = lit ''{}'' then Inr (JObj [])
      else if d = lit ''0'' then Inr (JNum (Finite 0))
      else Inl SyntaxError)"

section \<open>The Evidence Store of the retrieval controller\<close>

text \<open>
  The controller itself (\<^verbatim>\<open>agentic_doc_chunk_rag.py\<close>, named by the repository's README)
  is not among the source files; the sources hold its documentation, with the declaration
  of \<^verbatim>\<open>ChatState\<close> (\<^verbatim>\<open>current_results\<close>, \<^verbatim>\<open>vetted_results\<close>,
  \<^verbatim>\<open>discarded_results\<close>, \<^verbatim>\<open>processed_ids\<close>, \<^verbatim>\<open>reviews\<close>), and the
  frontend that consumes its events. Every definition of this section is therefore
  written from the specification, sections 3, 4.1, 4.3 and 4.5.
\<close>

text \<open>Modelled from the spec: the stable identifier of an EvidenceItem (section 3).\<close>

type_synonym ident = string

text \<open>
  Modelled from the spec: the EvidenceItem of section 3 (the result type of the absent
  controller): a stable identifier, the content, the provenance (source name and
  location) and a relevance score. Identity is the identifier.
\<close>

record evidence_item =
  item_id :: ident
  item_content :: string
  source_name :: string
  location :: nat
  relevance :: rat

text \<open>Modelled from the spec: the decision of a ReviewVerdict, retry or finalize (section 3).\<close>

datatype review_decision = Retry | Finalize

text \<open>
  Modelled from the spec: the ReviewVerdict of section 3 (the output of the absent review
  step): the rationale, the accepted and the rejected identifiers of the current batch,
  and the decision.
\<close>

record review_verdict =
  rationale :: string
  accepted_ids :: "ident list"
  rejected_ids :: "ident list"
  decision :: review_decision

text \<open>
  Modelled from the spec: the Evidence Store of sections 2 and 3 (the fields
  \<^verbatim>\<open>processed_ids\<close>, \<^verbatim>\<open>vetted_results\<close> and \<^verbatim>\<open>discarded_results\<close> of
  the absent controller's state). The AcceptedSet is kept in first-accepted order
  (section 4.6), so it is a list without repetition; the other two are sets.
\<close>

record evidence_store =
  SeenSet :: "ident set"
  AcceptedSet :: "ident list"
  RejectedSet :: "ident set"

text \<open>
  Modelled from the spec: the failures of the external collaborators (section 6), whose
  clients are part of the absent controller.
\<close>

datatype collaborator_error = GenerationError | RetrievalError

text \<open>
  Modelled from the spec: one entry of the Attempt Ledger (section 2): the request of an
  iteration, the evidence it retrieved and the verdict on it.
\<close>

record attempt =
  request :: string
  batch :: "evidence_item list"
  verdict :: review_verdict

text \<open>
  Modelled from the spec: the collaborator contracts of section 6, which the absent
  controller calls. The planner gets the question, the ledger and the SeenSet (section
  4.2); the search gets the query, the identifiers to exclude and \<open>K\<close>; the reviewer gets
  the question, the current batch and the AcceptedSet (section 4.5). What they answer is
  not constrained: they stand for a language model and a search service.
\<close>

record collaborators =
  plan :: "string \<Rightarrow> attempt list \<Rightarrow> ident set \<Rightarrow> collaborator_error + string"
  search :: "string \<Rightarrow> ident set \<Rightarrow> nat \<Rightarrow> collaborator_error + evidence_item list"
  review :: "string \<Rightarrow> evidence_item list \<Rightarrow> ident list \<Rightarrow> collaborator_error + review_verdict"

text \<open>
  Modelled from the spec: the Retriever of section 4.3 (absent from the sources; the
  documentation says of it that it automatically filters out previously processed documents
  and returns up to 5 most relevant results). It returns up to \<open>K\<close> items, none with an
  identifier of the exclusion set: the exclusion is enforced by a filter after the call,
  as section 4.3 requires where the service does not enforce it. A failure of the search
  collaborator is a recoverable empty result.
\<close>

definition Retriever :: "collaborators \<Rightarrow> nat \<Rightarrow> string \<Rightarrow> ident set \<Rightarrow> evidence_item list" where
  "Retriever c K req seen =
     (case search c req seen K of
        Inl err \<Rightarrow> []
      | Inr items \<Rightarrow> take K (filter (\<lambda>e. item_id e \<notin> seen) items))"

text \<open>
  Modelled from the spec: adding identifiers to the AcceptedSet (section 4.6: ordered by
  first-accepted time), an identifier already there keeping its place.
\<close>

definition add_accepted :: "ident list \<Rightarrow> ident list \<Rightarrow> ident list" where
  "add_accepted acc new = foldl (\<lambda>a i. if i \<in> set a then a else a @ [i]) acc new"

text \<open>
  Modelled from the spec: the completion of a REVIEW step on the Evidence Store (section
  4.5, absent from the sources): every item the Reviewer saw is added to the SeenSet, the
  accepted identifiers to the AcceptedSet, the rejected ones to the RejectedSet.
\<close>

definition apply_verdict :: "evidence_store \<Rightarrow> evidence_item list \<Rightarrow> review_verdict \<Rightarrow> evidence_store" where
  "apply_verdict st items v =
     \<lparr>SeenSet = SeenSet st \<union> item_id ` set items,
      AcceptedSet = add_accepted (AcceptedSet st) (accepted_ids v),
      RejectedSet = RejectedSet st \<union> set (rejected_ids v)\<rparr>"

text \<open>
  Modelled from the spec: the configuration of the absent controller: the attempt budget
  (section 4.1), the number \<open>K\<close> of items a retrieval may return (section 4.3), and the
  schema validation of the Reviewer's output (sections 4.5 and 9). The spec does not list
  what the validation checks, so it is a parameter.
\<close>

record config =
  max_attempts :: nat
  top_k :: nat
  validate :: "evidence_item list \<Rightarrow> review_verdict \<Rightarrow> bool"

text \<open>
  Modelled from the spec: the Session of section 3 as the absent controller holds it: the
  question, the iteration count, the Evidence Store and the Attempt Ledger.
\<close>

record session =
  question :: string
  iteration :: nat
  store :: evidence_store
  ledger :: "attempt list"

text \<open>
  Modelled from the spec: the state INIT of section 4.1, entered with the question and an
  empty Evidence Store and Attempt Ledger.
\<close>

definition initial_session :: "string \<Rightarrow> session" where
  "initial_session q =
     \<lparr>question = q, iteration = 0,
      store = \<lparr>SeenSet = {}, AcceptedSet = [], RejectedSet = {}\<rparr>,
      ledger = []\<rparr>"

text \<open>
  Modelled from the spec: the loop of the controller of section 4.1 (absent from the
  sources), as far as the Evidence Store goes. It returns the Evidence Store at each
  completion of a REVIEW step, in order. Entering PLAN increments the iteration count; a
  planner failure ends the session in FAILED before any review; ACT is the Retriever
  with the SeenSet as exclusion set; a reviewer failure or a verdict that fails
  the validation ends the session in FAILED with the store as it was; otherwise the verdict
  is applied and the attempt logged, and the controller goes back to PLAN when the
  decision is retry and the iteration count is below the attempt budget, and to FINALIZE
  otherwise.
\<close>

function review_completions :: "config \<Rightarrow> collaborators \<Rightarrow> session \<Rightarrow> evidence_store list" where
  "review_completions cfg c s =
     (let s1 = s\<lparr>iteration := iteration s + 1\<rparr>
      in case plan c (question s1) (ledger s1) (SeenSet (store s1)) of
           Inl err \<Rightarrow> []
         | Inr req \<Rightarrow>
             (let items = Retriever c (top_k cfg) req (SeenSet (store s1))
              in case review c (question s1) items (AcceptedSet (store s1)) of
                   Inl err \<Rightarrow> [store s1]
                 | Inr v \<Rightarrow>
                     if \<not> validate cfg items v then [store s1]
                     else (let s2 = s1\<lparr>store := apply_verdict (store s1) items v,
                                         ledger := ledger s1 @
                                           [\<lparr>request = req, batch = items, verdict = v\<rparr>]\<rparr>
                           in if decision v = Retry \<and> iteration s2 < max_attempts cfg
                              then store s2 # review_completions cfg c s2
                              else [store s2])))"
  by pat_completeness auto
termination
  by (relation "measure (\<lambda>(cfg, c, s). max_attempts cfg - iteration s)") auto

declare review_completions.simps [simp del]

text \<open>
  Modelled from the spec: an EvidenceItem of Scenario A (section 8), of which only the
  identifier matters. In the scenario the first search returns five items, of which the
  reviewer accepts three and rejects two and asks to retry; the second search returns
  one item already seen and one new item, which the reviewer accepts before it
  finalizes.
\<close>

definition item :: "ident \<Rightarrow> evidence_item" where
  "item i = \<lparr>item_id = i, item_content = [], source_name = [], location = 0, relevance = 0\<rparr>"

text \<open>
  Modelled from the spec: the collaborators of Scenario A (section 8): the planner's two
  queries, the two search results and the two verdicts.
\<close>

definition scenario_A :: collaborators where
  "scenario_A =
     \<lparr>plan = (\<lambda>q l seen. Inr (if l = [] then ''financials 2024'' else ''Q3 2024 financials'')),
      search = (\<lambda>req seen k.
         Inr (if req = ''financials 2024''
              then [item ''d1'', item ''d2'', item ''d3'', item ''d4'', item ''d5'']
              else [item ''d1'', item ''d6''])),
      review = (\<lambda>q items acc.
         Inr (if acc = []
              then \<lparr>rationale = ''Q3 is missing'', accepted_ids = [''d1'', ''d2'', ''d3''],
                    rejected_ids = [''d4'', ''d5''], decision = Retry\<rparr>
              else \<lparr>rationale = ''complete'', accepted_ids = [''d6''],
                    rejected_ids = [], decision = Finalize\<rparr>))\<rparr>"

text \<open>
  Modelled from the spec: the configuration of Scenario A: five attempts and five items
  for a retrieval session (the recommended defaults of sections 4.1 and 4.3), and a
  validation that checks that the identifiers of a verdict are those of the batch.
\<close>

definition config_A :: config where
  "config_A =
     \<lparr>max_attempts = 5, top_k = 5,
      validate = (\<lambda>items v. set (accepted_ids v) \<union> set (rejected_ids v) = item_id ` set items)\<rparr>"

section \<open>Proofs\<close>

subsection \<open>Citation tags\<close>

lemma split_on_not_Nil: "split_on sep s \<noteq> []"
  by (induction s) (auto split: list.splits)

lemma strip_prefix_append: "strip_prefix xs ys = Some r \<Longrightarrow> ys = xs @ r"
  by (induction xs ys rule: strip_prefix.induct) (auto split: if_splits)

lemma match_cit_shape:
  assumes "match_cit s = Some (d, rest)"
  shows "s = cit_open @ d @ cit_close @ rest \<and> d \<noteq> [] \<and> lt_sign \<notin> set d"
proof -
  from assms obtain r where r: "strip_prefix cit_open s = Some r"
    by (auto simp: match_cit_def split: option.splits)
  with assms have d: "d = takeWhile (\<lambda>c. c \<noteq> lt_sign) r" and ne: "d \<noteq> []"
    and c: "strip_prefix cit_close (dropWhile (\<lambda>c. c \<noteq> lt_sign) r) = Some rest"
    by (auto simp: match_cit_def Let_def split: option.splits if_splits)
  from c have "dropWhile (\<lambda>c. c \<noteq> lt_sign) r = cit_close @ rest"
    by (rule strip_prefix_append)
  then have "r = d @ cit_close @ rest"
    unfolding d by (metis takeWhile_dropWhile_id)
  moreover from r have "s = cit_open @ r"
    by (rule strip_prefix_append)
  moreover have "lt_sign \<notin> set d"
    unfolding d by (auto dest: set_takeWhileD)
  ultimately show ?thesis using ne by simp
qed

lemma pieces_raw: "concat (map raw (pieces s)) = s"
proof (induction s rule: pieces.induct)
  case 1
  show ?case by simp
next
  case (2 c cs)
  show ?case
  proof (cases "match_cit (c # cs)")
    case None
    with 2 show ?thesis by simp
  next
    case (Some a)
    obtain d rest where a: "a = (d, rest)" by (cases a)
    from Some a have s: "c # cs = cit_open @ d @ cit_close @ rest"
      using match_cit_shape by blast
    from "2.IH"(2) [OF Some a [symmetric]] have r: "concat (map raw (pieces rest)) = rest" .
    from Some a have "pieces (c # cs) = Tag d # pieces rest" by simp
    then have "concat (map raw (pieces (c # cs))) = cit_open @ d @ cit_close @ rest"
      by (simp add: r)
    with s show ?thesis by simp
  qed
qed

lemma pieces_tags: "Tag d \<in> set (pieces s) \<Longrightarrow> d \<noteq> [] \<and> lt_sign \<notin> set d"
proof (induction s rule: pieces.induct)
  case 1
  then show ?case by simp
next
  case (2 c cs)
  show ?case
  proof (cases "match_cit (c # cs)")
    case None
    with 2 show ?thesis by simp
  next
    case (Some a)
    obtain d' rest where a: "a = (d', rest)" by (cases a)
    from Some a have s: "d' \<noteq> [] \<and> lt_sign \<notin> set d'"
      using match_cit_shape by blast
    from "2.prems" Some a have "d = d' \<or> Tag d \<in> set (pieces rest)" by simp
    with s "2.IH"(2) [OF Some a [symmetric]] show ?thesis by blast
  qed
qed

lemma first_seen_filter: "first_seen (filter P xs) = filter P (first_seen xs)"
proof (induction xs)
  case Nil
  show ?case by simp
next
  case (Cons x xs)
  show ?case
  proof (cases "P x")
    case True
    with Cons show ?thesis by (simp add: removeAll_filter_not_eq conj_commute cong: conj_cong)
  next
    case False
    then have "filter P (removeAll x (first_seen xs)) = filter P (first_seen xs)"
      by (auto simp: removeAll_filter_not_eq intro!: filter_cong)
    with False Cons show ?thesis by simp
  qed
qed

lemma first_seen_removeAll: "first_seen (removeAll x xs) = removeAll x (first_seen xs)"
  by (simp add: removeAll_filter_not_eq first_seen_filter)

lemma set_first_seen [simp]: "set (first_seen xs) = set xs"
  by (induction xs) auto

lemma distinct_first_seen [simp]: "distinct (first_seen xs)"
  by (induction xs) (auto simp: distinct_removeAll)

lemma foldl_add_name:
  "distinct ns \<Longrightarrow> foldl add_name ns ds = ns @ first_seen (filter (\<lambda>d. d \<notin> set ns) ds)"
proof (induction ds arbitrary: ns)
  case Nil
  show ?case by simp
next
  case (Cons d ds)
  show ?case
  proof (cases "d \<in> set ns")
    case True
    with Cons show ?thesis by (simp add: add_name_def)
  next
    case False
    have "filter (\<lambda>x. x \<notin> set (ns @ [d])) ds = removeAll d (filter (\<lambda>x. x \<notin> set ns) ds)"
      by (induction ds) auto
    then have "first_seen (filter (\<lambda>x. x \<notin> set (ns @ [d])) ds)
          = removeAll d (first_seen (filter (\<lambda>x. x \<notin> set ns) ds))"
      by (simp add: first_seen_removeAll)
    with False Cons show ?thesis by (simp add: add_name_def)
  qed
qed

lemma position_append: "x \<in> set xs \<Longrightarrow> position x (xs @ ys) = position x xs"
  by (simp add: position_def)

lemma position_fresh: "x \<notin> set xs \<Longrightarrow> position x (xs @ [x]) = Suc (length xs)"
proof -
  assume "x \<notin> set xs"
  then have "takeWhile (\<lambda>y. y \<noteq> x) (xs @ [x]) = xs @ takeWhile (\<lambda>y. y \<noteq> x) [x]"
    by (intro takeWhile_append2) auto
  then show ?thesis by (simp add: position_def)
qed

lemma replacer_step:
  assumes "wf_state st" and "replacer st d = (m, st')"
  shows "wf_state st' \<and> names st' = add_name (names st) (trim d)
         \<and> m = bracket (position (trim d) (names st'))"
proof (cases "trim d \<in> set (names st)")
  case True
  with assms show ?thesis
    by (auto simp: replacer_def wf_state_def add_name_def Let_def)
next
  case False
  with assms(1) have none: "citationMap st (trim d) = None"
    by (simp add: wf_state_def)
  from assms(2) none have m: "m = bracket (Suc (length (citations st)))"
    and n: "names st' = names st @ [trim d]"
    and c: "citationMap st' = (citationMap st)(trim d \<mapsto> Suc (length (citations st)))"
    and r: "map reference_number (citations st') = map reference_number (citations st) @ [Some (Suc (length (citations st)))]"
    and l: "length (citations st') = Suc (length (citations st))"
    by (auto simp: replacer_def Let_def names_def)
  have p: "position (trim d) (names st @ [trim d]) = Suc (length (citations st))"
    using False position_fresh [of "trim d" "names st"] by (simp add: names_def)
  have "citationMap st' = (\<lambda>x. if x \<in> set (names st') then Some (position x (names st')) else None)"
    using assms(1) False p by (auto simp: c n wf_state_def fun_eq_iff position_append)
  moreover have "distinct (names st')"
    using assms(1) False by (simp add: n wf_state_def)
  moreover have "map reference_number (citations st') = map Some [1..<Suc (length (citations st'))]"
    using assms(1) by (simp add: r l wf_state_def)
  ultimately show ?thesis
    using False p by (simp add: wf_state_def m n add_name_def)
qed

lemma foldl_add_name_prefix:
  "distinct ns \<Longrightarrow> \<exists>more. foldl add_name ns ds = ns @ more"
  by (simp add: foldl_add_name)

lemma add_name_mem: "d \<in> set (add_name ns d)"
  by (simp add: add_name_def)

lemma replace_cit_general:
  assumes "wf_state st" and "replace_cit st s = (out, st')"
  shows "wf_state st' \<and> names st' = foldl add_name (names st) (tag_texts (pieces s))
         \<and> out = concat (map (render (names st')) (pieces s))"
  using assms
proof (induction st s arbitrary: out st' rule: replace_cit.induct)
  case (1 st)
  then show ?case by simp
next
  case (2 st c cs)
  show ?case
  proof (cases "match_cit (c # cs)")
    case None
    obtain out1 st1 where r: "replace_cit st cs = (out1, st1)"
      by (cases "replace_cit st cs")
    from "2.prems"(2) None r have o: "out = c # out1" and s: "st' = st1"
      by auto
    from "2.IH"(1) [OF None "2.prems"(1) r] None o s show ?thesis
      by simp
  next
    case (Some a)
    obtain d rest where a: "a = (d, rest)" by (cases a)
    obtain m st1 where rp: "replacer st d = (m, st1)"
      by (cases "replacer st d")
    obtain out2 st2 where r: "replace_cit st1 rest = (out2, st2)"
      by (cases "replace_cit st1 rest")
    from "2.prems"(2) Some a rp r have o: "out = m @ out2" and s: "st' = st2"
      by auto
    from replacer_step [OF "2.prems"(1) rp]
    have w1: "wf_state st1" and n1: "names st1 = add_name (names st) (trim d)"
      and m: "m = bracket (position (trim d) (names st1))"
      by simp_all
    from "2.IH"(2) [OF Some a [symmetric] refl rp [symmetric] w1 r]
    have w2: "wf_state st2"
      and n2: "names st2 = foldl add_name (names st1) (tag_texts (pieces rest))"
      and o2: "out2 = concat (map (render (names st2)) (pieces rest))"
      by simp_all
    from w1 have "distinct (names st1)" by (simp add: wf_state_def)
    then obtain more where "names st2 = names st1 @ more"
      using foldl_add_name_prefix n2 by metis
    moreover have "trim d \<in> set (names st1)"
      by (simp add: n1 add_name_mem)
    ultimately have "position (trim d) (names st2) = position (trim d) (names st1)"
      by (simp add: position_append)
    with Some a o s w2 n2 o2 m n1 show ?thesis
      by simp
  qed
qed

lemma takeWhile_neq_nth:
  "x \<in> set xs \<Longrightarrow>
     length (takeWhile (\<lambda>y. y \<noteq> x) xs) < length xs
     \<and> xs ! length (takeWhile (\<lambda>y. y \<noteq> x) xs) = x"
  by (induction xs) auto

lemma position_nth:
  "x \<in> set xs \<Longrightarrow> position x xs \<le> length xs \<and> xs ! (position x xs - 1) = x"
  using takeWhile_neq_nth [of x xs] by (simp add: position_def Suc_le_eq)

lemma wf_initial: "wf_state \<lparr>citations = [], citationMap = Map.empty\<rparr>"
  by (simp add: wf_state_def names_def)

text \<open>
  Claim C9. Every input string is its citation tags (the matches of the regular
  expression: \<^verbatim>\<open><cit>\<close>, a display text that is not empty and has no
  \<^verbatim>\<open><\<close>, \<^verbatim>\<open></cit>\<close>) and the code units between them, and
  \<open>parseCitTags\<close> replaces each tag with a bracketed number and copies every other code
  unit; the number of a tag is the 1-based position of its trimmed display text among the
  distinct trimmed display texts in order of first appearance, so numbers 1, 2, 3, ...
  are given in that order and a later tag with the same trimmed text gets the same
  number; the returned citations hold exactly one entry per distinct trimmed display
  text, in that order, and the entry at 1-based position \<open>n\<close> has
  \<open>reference_number = n\<close> and is the entry the marker \<open>[n]\<close> stands for.
\<close>

theorem parseCitTags_numbering:
  "concat (map raw (pieces text)) = text
   \<and> (\<forall>d. Tag d \<in> set (pieces text) \<longrightarrow> d \<noteq> [] \<and> lt_sign \<notin> set d)
   \<and> fst (parseCitTags text) =
     concat (map (render (first_seen (tag_texts (pieces text)))) (pieces text))
   \<and> map display_text (snd (parseCitTags text)) = first_seen (tag_texts (pieces text))
   \<and> distinct (map display_text (snd (parseCitTags text)))
   \<and> map reference_number (snd (parseCitTags text)) =
       map Some [1..<Suc (length (snd (parseCitTags text)))]
   \<and> (\<forall>d \<in> set (tag_texts (pieces text)).
         position d (first_seen (tag_texts (pieces text))) \<le> length (snd (parseCitTags text))
         \<and> display_text (snd (parseCitTags text) !
               (position d (first_seen (tag_texts (pieces text))) - 1)) = d)"
proof -
  let ?init = "\<lparr>citations = [], citationMap = Map.empty\<rparr>"
  let ?fs = "first_seen (tag_texts (pieces text))"
  obtain out st where r: "replace_cit ?init text = (out, st)"
    by (cases "replace_cit ?init text")
  then have p: "parseCitTags text = (out, citations st)"
    by (simp add: parseCitTags_def)
  from replace_cit_general [OF wf_initial r]
  have w: "wf_state st"
    and n: "names st = foldl add_name [] (tag_texts (pieces text))"
    and o: "out = concat (map (render (names st)) (pieces text))"
    by (simp_all add: names_def)
  from n have fs: "names st = ?fs"
    by (simp add: foldl_add_name)
  have nth: "\<forall>d \<in> set (tag_texts (pieces text)).
      position d ?fs \<le> length (citations st)
      \<and> display_text (citations st ! (position d ?fs - 1)) = d"
  proof
    fix d assume "d \<in> set (tag_texts (pieces text))"
    then have "d \<in> set ?fs" by simp
    from position_nth [OF this] have le: "position d ?fs \<le> length ?fs"
      and eq: "?fs ! (position d ?fs - 1) = d" by simp_all
    have len: "length ?fs = length (citations st)"
      using fs by (metis length_map names_def)
    have pos: "0 < position d ?fs" by (simp add: position_def)
    with le len have "position d ?fs - 1 < length (citations st)" by linarith
    then have "display_text (citations st ! (position d ?fs - 1)) = names st ! (position d ?fs - 1)"
      by (simp add: names_def)
    with le len eq fs show "position d ?fs \<le> length (citations st)
      \<and> display_text (citations st ! (position d ?fs - 1)) = d" by simp
  qed
  from w have "distinct (names st)"
    and "map reference_number (citations st) = map Some [1..<Suc (length (citations st))]"
    by (simp_all add: wf_state_def)
  with p o fs nth pieces_tags show ?thesis
    by (simp add: names_def pieces_raw)
qed

text \<open>
  The theorem at a text with three tags, two of them for the same source once trimmed:
  the markers are \<open>[1]\<close>, \<open>[2]\<close>, \<open>[1]\<close> and two citations are returned.
\<close>

theorem parseCitTags_numbering_witness:
  "fst (parseCitTags (lit ''a<cit> x - page 2 </cit>b<cit>y</cit><cit>x - page 2</cit>''))
     = lit ''a[1]b[2][1]''
   \<and> map display_text
         (snd (parseCitTags (lit ''a<cit> x - page 2 </cit>b<cit>y</cit><cit>x - page 2</cit>'')))
       = [lit ''x - page 2'', lit ''y'']
   \<and> map reference_number
         (snd (parseCitTags (lit ''a<cit> x - page 2 </cit>b<cit>y</cit><cit>x - page 2</cit>'')))
       = [Some 1, Some 2]"
proof -
  let ?t = "lit ''a<cit> x - page 2 </cit>b<cit>y</cit><cit>x - page 2</cit>''"
  have p: "pieces ?t =
      [Plain 97, Tag (lit '' x - page 2 ''), Plain 98, Tag (lit ''y''), Tag (lit ''x - page 2'')]"
    by (simp add: lit_def match_cit_def cit_open_def cit_close_def lt_sign_def)
  have t: "tag_texts (pieces ?t) = [lit ''x - page 2'', lit ''y'', lit ''x - page 2'']"
    unfolding p by (simp add: lit_def trim_def is_js_space_def)
  have f: "first_seen (tag_texts (pieces ?t)) = [lit ''x - page 2'', lit ''y'']"
    unfolding t by (simp add: lit_def)
  have r: "concat (map (render [lit ''x - page 2'', lit ''y'']) (pieces ?t)) = lit ''a[1]b[2][1]''"
    unfolding p
    by (simp add: lit_def trim_def is_js_space_def position_def bracket_def number_to_string.simps)
  from parseCitTags_numbering [of ?t]
  have a: "fst (parseCitTags ?t) = lit ''a[1]b[2][1]''"
    and b: "map display_text (snd (parseCitTags ?t)) = [lit ''x - page 2'', lit ''y'']"
    and c: "map reference_number (snd (parseCitTags ?t))
              = map Some [1..<Suc (length (snd (parseCitTags ?t)))]"
    unfolding f r by blast+
  from b have "length (snd (parseCitTags ?t)) = 2"
    by (metis length_map length_Cons list.size(3) numeral_2_eq_2)
  with c have "map reference_number (snd (parseCitTags ?t)) = [Some 1, Some 2]"
    by (simp add: upt_rec)
  with a b show ?thesis by blast
qed

subsection \<open>Stream event listeners\<close>

lemma safeParseJSON_returns: "\<exists>data. safeParseJSON JSON_parse e_data = Inr data"
  by (simp add: safeParseJSON_def split: sum.split)

lemma lacks_not_truthy:
  assumes "not_json_or_lacks JSON_parse e_data field"
    and "safeParseJSON JSON_parse e_data = Inr data"
  shows "get_prop data field = None"
  using assms
  by (auto simp: not_json_or_lacks_def safeParseJSON_def split: sum.splits if_splits)

text \<open>
  On an event whose data parses to a value with a truthy field the listeners do update
  the state: the guard is what decides.
\<close>

lemma retrieve_listener_shows_status:
  assumes "e_data \<noteq> []" and "JSON_parse e_data = Inr data"
    and "truthy (get_prop data (lit ''message''))"
  shows "\<exists>st'. retrieve_listener JSON_parse st e_data = Inr st'
           \<and> length (messages st') = Suc (length (messages st))
           \<and> content (last (messages st')) = STATUS_SEARCHING"
  using assms by (simp add: retrieve_listener_def safeParseJSON_def)

lemma response_chunk_listener_appends:
  assumes "e_data \<noteq> []" and "JSON_parse e_data = Inr data"
    and "get_prop data (lit ''chunk'') = Some (JStr chunk)" and "chunk \<noteq> []"
  shows "\<exists>st'. response_chunk_listener JSON_parse ToString st e_data = Inr st'
           \<and> responseText st' = responseText st @ chunk"
  using assms by (simp add: response_chunk_listener_def safeParseJSON_def string_of_def Let_def)

text \<open>
  Claim C10. For the retrieve, review, response_chunk and final_payload events, in both
  versions of the page: when the data of the event is not valid JSON (\<open>safeParseJSON\<close>
  returns \<^verbatim>\<open>null\<close> instead of throwing) or the value parsed lacks the field the
  listener reads (\<^verbatim>\<open>message\<close>, \<^verbatim>\<open>chunk\<close>, \<^verbatim>\<open>payload\<close>), the listener
  returns normally and the state is the one it started from: the message list, the
  accumulated response text and the other variables are unchanged.
\<close>

theorem listeners_ignore_malformed_events:
  "(JSON_parse e_data = Inl SyntaxError \<longrightarrow> safeParseJSON JSON_parse e_data = Inr JNull)
   \<and> (not_json_or_lacks JSON_parse e_data (lit ''message'') \<longrightarrow>
      retrieve_listener JSON_parse st e_data = Inr st
      \<and> review_listener JSON_parse st e_data = Inr st
      \<and> retrieve_listener2 JSON_parse st2 e_data = Inr st2
      \<and> review_listener2 JSON_parse st2 e_data = Inr st2)
   \<and> (not_json_or_lacks JSON_parse e_data (lit ''chunk'') \<longrightarrow>
      response_chunk_listener JSON_parse ToString st e_data = Inr st
      \<and> response_chunk_listener2 JSON_parse ToString st2 e_data = Inr st2)
   \<and> (not_json_or_lacks JSON_parse e_data (lit ''payload'') \<longrightarrow>
      final_payload_listener JSON_parse st e_data = Inr st
      \<and> final_payload_listener2 JSON_parse st2 e_data = Inr st2)"
proof -
  obtain data where d: "safeParseJSON JSON_parse e_data = Inr data"
    using safeParseJSON_returns by blast
  have m: "not_json_or_lacks JSON_parse e_data (lit ''message'') \<Longrightarrow>
      get_prop data (lit ''message'') = None"
    and c: "not_json_or_lacks JSON_parse e_data (lit ''chunk'') \<Longrightarrow>
      get_prop data (lit ''chunk'') = None"
    and p: "not_json_or_lacks JSON_parse e_data (lit ''payload'') \<Longrightarrow>
      get_prop data (lit ''payload'') = None"
    using d by (auto dest: lacks_not_truthy)
  have n: "JSON_parse e_data = Inl SyntaxError \<Longrightarrow> safeParseJSON JSON_parse e_data = Inr JNull"
    by (simp add: safeParseJSON_def)
  show ?thesis
    using m c p n
    by (auto simp: d retrieve_listener_def review_listener_def response_chunk_listener_def
        final_payload_listener_def retrieve_listener2_def review_listener2_def
        response_chunk_listener2_def final_payload_listener2_def)
qed

text \<open>
  The theorem at a text that is not JSON and at the empty object, which has none of the
  fields.
\<close>

theorem listeners_ignore_malformed_events_witness:
  "safeParseJSON toy_parse (lit ''{oops'') = Inr JNull
   \<and> retrieve_listener toy_parse searching_state (lit ''{oops'') = Inr searching_state
   \<and> review_listener2 toy_parse searching_state2 (lit ''{oops'') = Inr searching_state2
   \<and> response_chunk_listener toy_parse (\<lambda>v. []) searching_state (lit ''{}'')
       = Inr searching_state
   \<and> response_chunk_listener2 toy_parse (\<lambda>v. []) searching_state2 (lit ''0'')
       = Inr searching_state2
   \<and> final_payload_listener toy_parse searching_state (lit ''{}'') = Inr searching_state
   \<and> final_payload_listener2 toy_parse searching_state2 (lit ''{}'') = Inr searching_state2"
proof -
  have e: "toy_parse (lit ''{oops'') = Inl SyntaxError"
    by (simp add: toy_parse_def lit_def)
  then have a: "not_json_or_lacks toy_parse (lit ''{oops'') (lit ''message'')"
    by (simp add: not_json_or_lacks_def)
  have b: "not_json_or_lacks toy_parse (lit ''{}'') (lit ''chunk'')"
    by (simp add: not_json_or_lacks_def toy_parse_def lit_def)
  have c: "not_json_or_lacks toy_parse (lit ''{}'') (lit ''payload'')"
    by (simp add: not_json_or_lacks_def toy_parse_def lit_def)
  have d: "not_json_or_lacks toy_parse (lit ''0'') (lit ''chunk'')"
    by (simp add: not_json_or_lacks_def toy_parse_def lit_def)
  from e a b c d
    listeners_ignore_malformed_events [of toy_parse "lit ''{oops''" searching_state searching_state2]
    listeners_ignore_malformed_events [of toy_parse "lit ''{}''" searching_state searching_state2]
    listeners_ignore_malformed_events [of toy_parse "lit ''0''" _ searching_state2]
  show ?thesis by blast
qed

subsection \<open>The Evidence Store\<close>

lemma apply_verdict_seen: "SeenSet st \<subseteq> SeenSet (apply_verdict st items v)"
  by (simp add: apply_verdict_def)

lemma review_completions_seen_chain:
  "sorted_wrt (\<lambda>a b. SeenSet a \<subseteq> SeenSet b) (store s # review_completions cfg c s)"
proof (induction cfg c s rule: review_completions.induct)
  case (1 cfg c s)
  let ?s1 = "s\<lparr>iteration := iteration s + 1\<rparr>"
  show ?case
  proof (cases "plan c (question ?s1) (ledger ?s1) (SeenSet (store ?s1))")
    case (Inl err)
    then show ?thesis by (subst review_completions.simps) simp
  next
    case (Inr req)
    let ?items = "Retriever c (top_k cfg) req (SeenSet (store ?s1))"
    show ?thesis
    proof (cases "review c (question ?s1) ?items (AcceptedSet (store ?s1))")
      case (Inl err)
      with Inr show ?thesis by (subst review_completions.simps) simp
    next
      case v: (Inr v)
      show ?thesis
      proof (cases "validate cfg ?items v")
        case False
        with Inr v show ?thesis by (subst review_completions.simps) simp
      next
        case True
        let ?s2 = "?s1\<lparr>store := apply_verdict (store ?s1) ?items v,
                       ledger := ledger ?s1 @ [\<lparr>request = req, batch = ?items, verdict = v\<rparr>]\<rparr>"
        have grow: "SeenSet (store s) \<subseteq> SeenSet (store ?s2)"
          using apply_verdict_seen [of "store s" ?items v] by simp
        show ?thesis
        proof (cases "decision v = Retry \<and> iteration ?s2 < max_attempts cfg")
          case more: True
          have "sorted_wrt (\<lambda>a b. SeenSet a \<subseteq> SeenSet b)
                  (store ?s2 # review_completions cfg c ?s2)"
            using "1.IH" [OF refl Inr refl v _ refl more] True by simp
          with grow have "sorted_wrt (\<lambda>a b. SeenSet a \<subseteq> SeenSet b)
                  (store s # store ?s2 # review_completions cfg c ?s2)"
            by auto
          with Inr v True more show ?thesis
            by (subst review_completions.simps) (simp add: Let_def)
        next
          case False
          with Inr v True grow show ?thesis
            by (subst review_completions.simps) (auto simp: Let_def)
        qed
      qed
    qed
  qed
qed

lemma review_completions_retry:
  assumes "plan c (question s) (ledger s) (SeenSet (store s)) = Inr req"
    and "Retriever c (top_k cfg) req (SeenSet (store s)) = items"
    and "review c (question s) items (AcceptedSet (store s)) = Inr v"
    and "validate cfg items v"
    and "decision v = Retry" and "Suc (iteration s) < max_attempts cfg"
  shows "review_completions cfg c s =
     apply_verdict (store s) items v #
     review_completions cfg c
       (s\<lparr>iteration := Suc (iteration s), store := apply_verdict (store s) items v,
          ledger := ledger s @ [\<lparr>request = req, batch = items, verdict = v\<rparr>]\<rparr>)"
  using assms by (subst review_completions.simps) (simp add: Let_def)

lemma review_completions_finalize:
  assumes "plan c (question s) (ledger s) (SeenSet (store s)) = Inr req"
    and "Retriever c (top_k cfg) req (SeenSet (store s)) = items"
    and "review c (question s) items (AcceptedSet (store s)) = Inr v"
    and "validate cfg items v"
    and "decision v = Finalize"
  shows "review_completions cfg c s = [apply_verdict (store s) items v]"
  using assms by (subst review_completions.simps) (simp add: Let_def)

lemma scenario_A_trace:
  "review_completions config_A scenario_A (initial_session ''Show me financials for 2024'')
     = [\<lparr>SeenSet = {''d1'', ''d2'', ''d3'', ''d4'', ''d5''},
         AcceptedSet = [''d1'', ''d2'', ''d3''],
         RejectedSet = {''d4'', ''d5''}\<rparr>,
        \<lparr>SeenSet = {''d1'', ''d2'', ''d3'', ''d4'', ''d5'', ''d6''},
         AcceptedSet = [''d1'', ''d2'', ''d3'', ''d6''],
         RejectedSet = {''d4'', ''d5''}\<rparr>]"
proof -
  let ?q = "''Show me financials for 2024''"
  let ?s0 = "initial_session ?q"
  let ?items1 = "[item ''d1'', item ''d2'', item ''d3'', item ''d4'', item ''d5'']"
  let ?v1 = "\<lparr>rationale = ''Q3 is missing'', accepted_ids = [''d1'', ''d2'', ''d3''],
              rejected_ids = [''d4'', ''d5''], decision = Retry\<rparr>"
  let ?st1 = "\<lparr>SeenSet = {''d1'', ''d2'', ''d3'', ''d4'', ''d5''},
               AcceptedSet = [''d1'', ''d2'', ''d3''], RejectedSet = {''d4'', ''d5''}\<rparr>"
  let ?s1 = "?s0\<lparr>iteration := Suc (iteration ?s0), store := apply_verdict (store ?s0) ?items1 ?v1,
          ledger := ledger ?s0 @ [\<lparr>request = ''financials 2024'', batch = ?items1, verdict = ?v1\<rparr>]\<rparr>"
  let ?items2 = "[item ''d6'']"
  let ?v2 = "\<lparr>rationale = ''complete'', accepted_ids = [''d6''],
              rejected_ids = [], decision = Finalize\<rparr>"
  let ?st2 = "\<lparr>SeenSet = {''d1'', ''d2'', ''d3'', ''d4'', ''d5'', ''d6''},
               AcceptedSet = [''d1'', ''d2'', ''d3'', ''d6''], RejectedSet = {''d4'', ''d5''}\<rparr>"
  have k: "top_k config_A = 5"
    by (simp add: config_A_def)
  have p1: "plan scenario_A (question ?s0) (ledger ?s0) (SeenSet (store ?s0)) = Inr ''financials 2024''"
    by (simp add: scenario_A_def initial_session_def)
  have r1: "Retriever scenario_A (top_k config_A) ''financials 2024'' (SeenSet (store ?s0)) = ?items1"
    unfolding k by (simp add: Retriever_def scenario_A_def initial_session_def)
  have w1: "review scenario_A (question ?s0) ?items1 (AcceptedSet (store ?s0)) = Inr ?v1"
    by (simp add: scenario_A_def initial_session_def)
  have v1: "validate config_A ?items1 ?v1"
    by (auto simp: config_A_def item_def)
  have a1: "apply_verdict (store ?s0) ?items1 ?v1 = ?st1"
    by (auto simp: apply_verdict_def add_accepted_def initial_session_def item_def)
  have d1: "decision ?v1 = Retry" by simp
  have i1: "Suc (iteration ?s0) < max_attempts config_A"
    by (simp add: initial_session_def config_A_def)
  have step1: "review_completions config_A scenario_A ?s0 =
      apply_verdict (store ?s0) ?items1 ?v1 # review_completions config_A scenario_A ?s1"
    by (rule review_completions_retry [OF p1 r1 w1 v1 d1 i1])
  have s1: "store ?s1 = ?st1" "ledger ?s1 \<noteq> []"
    by (simp_all add: a1)
  have p2: "plan scenario_A (question ?s1) (ledger ?s1) (SeenSet (store ?s1)) = Inr ''Q3 2024 financials''"
    by (simp add: scenario_A_def)
  have r2: "Retriever scenario_A (top_k config_A) ''Q3 2024 financials'' (SeenSet (store ?s1)) = ?items2"
    unfolding s1 k by (simp add: Retriever_def scenario_A_def item_def)
  have w2: "review scenario_A (question ?s1) ?items2 (AcceptedSet (store ?s1)) = Inr ?v2"
    unfolding s1 by (simp add: scenario_A_def)
  have v2: "validate config_A ?items2 ?v2"
    by (simp add: config_A_def item_def)
  have a2: "apply_verdict (store ?s1) ?items2 ?v2 = ?st2"
    unfolding s1 by (auto simp: apply_verdict_def add_accepted_def item_def)
  have d2: "decision ?v2 = Finalize" by simp
  have step2: "review_completions config_A scenario_A ?s1 = [apply_verdict (store ?s1) ?items2 ?v2]"
    by (rule review_completions_finalize [OF p2 r2 w2 v2 d2])
  show ?thesis
    apply (subst step1)
    apply (subst step2)
    apply (subst a2)
    apply (subst a1)
    apply (rule refl)
    done
qed

text \<open>
  Claim C3. Within a session the SeenSet never shrinks: of the Evidence Stores of a
  session, taken at its start and at each completion of a REVIEW step, an earlier one has
  its SeenSet within that of a later one; and the one operation that writes the SeenSet,
  the completion of a review, removes no identifier.
\<close>

theorem SeenSet_monotone:
  "(\<forall>i j. i < j \<and> j < length (store (initial_session q) #
                 review_completions cfg c (initial_session q)) \<longrightarrow>
       SeenSet ((store (initial_session q) # review_completions cfg c (initial_session q)) ! i)
       \<subseteq> SeenSet ((store (initial_session q) # review_completions cfg c (initial_session q)) ! j))
   \<and> (\<forall>st items v. SeenSet st \<subseteq> SeenSet (apply_verdict st items v))"
  using review_completions_seen_chain [of "initial_session q" cfg c]
    apply_verdict_seen
  by (auto simp: sorted_wrt_iff_nth_less simp del: sorted_wrt.simps)

text \<open>The theorem in Scenario A, between the first review and the second.\<close>

theorem SeenSet_monotone_witness:
  "SeenSet ((store (initial_session ''Show me financials for 2024'') #
             review_completions config_A scenario_A
               (initial_session ''Show me financials for 2024'')) ! 1)
     = {''d1'', ''d2'', ''d3'', ''d4'', ''d5''}
   \<and> SeenSet ((store (initial_session ''Show me financials for 2024'') #
             review_completions config_A scenario_A
               (initial_session ''Show me financials for 2024'')) ! 2)
     = {''d1'', ''d2'', ''d3'', ''d4'', ''d5'', ''d6''}
   \<and> SeenSet ((store (initial_session ''Show me financials for 2024'') #
             review_completions config_A scenario_A
               (initial_session ''Show me financials for 2024'')) ! 1)
     \<subseteq> SeenSet ((store (initial_session ''Show me financials for 2024'') #
             review_completions config_A scenario_A
               (initial_session ''Show me financials for 2024'')) ! 2)"
proof -
  let ?tr = "store (initial_session ''Show me financials for 2024'') #
             review_completions config_A scenario_A
               (initial_session ''Show me financials for 2024'')"
  have len: "(1::nat) < 2 \<and> 2 < length ?tr"
    by (simp add: scenario_A_trace)
  with SeenSet_monotone [of "''Show me financials for 2024''" config_A scenario_A]
  have "SeenSet (?tr ! 1) \<subseteq> SeenSet (?tr ! 2)"
    by blast
  moreover have "SeenSet (?tr ! 1) = {''d1'', ''d2'', ''d3'', ''d4'', ''d5''}"
    by (simp add: scenario_A_trace)
  moreover have "SeenSet (?tr ! 2) = {''d1'', ''d2'', ''d3'', ''d4'', ''d5'', ''d6''}"
    by (simp add: scenario_A_trace)
  ultimately show ?thesis
    by blast
qed

end
